theory Spec2Isabelle
  imports Complex_Main "HOL-Library.Multiset" "HOL-Library.Sublist"
begin

section \<open>Data model (frontend types)\<close>

text \<open>
  The TypeScript interfaces of the frontend, as records. Field names shared by several
  interfaces (\<open>id\<close>, \<open>task_id\<close>, \<open>created_at\<close>, \<open>type\<close>, \<open>title\<close>, \<open>message\<close>) carry the
  interface name as a suffix. A JavaScript \<open>number\<close> that is only stored and never
  computed with (\<open>progress\<close>) is a \<open>real\<close>; \<open>any\<close> is the serialised text of the value.
\<close>

datatype TaskStatus = QUEUED | RUNNING | COMPLETED | FAILED | CANCELLED

datatype LogLevel = DEBUG | INFO | WARNING | ERROR

record TaskLog =
  id_TaskLog :: string
  task_id :: string
  level :: LogLevel
  message :: string
  step :: "string option"
  created_at_TaskLog :: string

record MarketAnalysis =
  market_size :: string
  target_audience :: string
  competitive_landscape :: string
  market_trends :: string

record ProductAnalysis =
  strengths :: "string list"
  weaknesses :: "string list"
  opportunities :: "string list"
  threats :: "string list"

record Recommendations =
  short_term :: "string list"
  medium_term :: "string list"
  long_term :: "string list"

record Chart =
  type_Chart :: string
  title_Chart :: string
  data_Chart :: string

record DataVisualization =
  charts :: "Chart list"

record AnalysisResult =
  id_AnalysisResult :: string
  task_id_AnalysisResult :: string
  market_analysis :: MarketAnalysis
  product_analysis :: ProductAnalysis
  recommendations :: Recommendations
  data_visualization :: DataVisualization
  created_at_AnalysisResult :: string

record Task =
  id_Task :: string
  product_name :: string
  status :: TaskStatus
  progress :: real
  created_at :: string
  updated_at :: string
  completed_at :: "string option"
  user_id :: string
  result :: "AnalysisResult option"
  logs :: "TaskLog list option"

section \<open>The task store (useTaskStore)\<close>

text \<open>
  The zustand store holds \<open>tasks\<close>, \<open>currentTask\<close> and \<open>taskLogs\<close>; every action is a
  function from the state to the next state. \<open>new Date().toISOString()\<close> reads the clock:
  the string it returns is the argument \<open>now\<close> of the actions that call it.
\<close>

record TaskState =
  tasks :: "Task list"
  currentTask :: "Task option"
  taskLogs :: "string \<rightharpoonup> TaskLog list"

definition initialTaskState :: TaskState where
  "initialTaskState = \<lparr>tasks = [], currentTask = None, taskLogs = Map.empty\<rparr>"

definition setTasks :: "Task list \<Rightarrow> TaskState \<Rightarrow> TaskState" where
  "setTasks ts s = s\<lparr>tasks := ts\<rparr>"

definition addTask :: "Task \<Rightarrow> TaskState \<Rightarrow> TaskState" where
  "addTask task s = s\<lparr>tasks := task # tasks s\<rparr>"

definition removeTask :: "string \<Rightarrow> TaskState \<Rightarrow> TaskState" where
  "removeTask taskId s = s\<lparr>tasks := filter (\<lambda>task. id_Task task \<noteq> taskId) (tasks s)\<rparr>"

definition getTaskById :: "string \<Rightarrow> TaskState \<Rightarrow> Task option" where
  "getTaskById taskId s = find (\<lambda>task. id_Task task = taskId) (tasks s)"

text \<open>
  \<open>addTaskLog\<close> copies the map, reads the entry of \<open>taskId\<close> (\<open>|| []\<close> when there is none;
  an empty array is truthy, so an empty entry is kept as it is) and stores the entry with
  the log (\<open>entry\<close> here: \<open>log\<close> is the logarithm in HOL) pushed at the end.
\<close>

definition addTaskLog :: "string \<Rightarrow> TaskLog \<Rightarrow> TaskState \<Rightarrow> TaskState" where
  "addTaskLog taskId entry s =
     (let newLogs = taskLogs s;
          existingLogs = (case newLogs taskId of Some ls \<Rightarrow> ls | None \<Rightarrow> [])
      in s\<lparr>taskLogs := newLogs(taskId \<mapsto> existingLogs @ [entry])\<rparr>)"

definition getTaskLogs :: "string \<Rightarrow> TaskState \<Rightarrow> TaskLog list" where
  "getTaskLogs taskId s = (case taskLogs s taskId of Some ls \<Rightarrow> ls | None \<Rightarrow> [])"

definition clearTaskLogs :: "string \<Rightarrow> TaskState \<Rightarrow> TaskState" where
  "clearTaskLogs taskId s = s\<lparr>taskLogs := (taskLogs s)(taskId := None)\<rparr>"

definition updateTaskStatus :: "string \<Rightarrow> string \<Rightarrow> TaskStatus \<Rightarrow> TaskState \<Rightarrow> TaskState" where
  "updateTaskStatus now taskId st s =
     s\<lparr>tasks := map (\<lambda>task. if id_Task task = taskId
                              then task\<lparr>status := st, updated_at := now\<rparr> else task) (tasks s)\<rparr>"

definition updateTaskProgress :: "string \<Rightarrow> string \<Rightarrow> real \<Rightarrow> TaskState \<Rightarrow> TaskState" where
  "updateTaskProgress now taskId p s =
     s\<lparr>tasks := map (\<lambda>task. if id_Task task = taskId
                              then task\<lparr>progress := p, updated_at := now\<rparr> else task) (tasks s)\<rparr>"

definition updateTaskResult :: "string \<Rightarrow> string \<Rightarrow> AnalysisResult \<Rightarrow> TaskState \<Rightarrow> TaskState" where
  "updateTaskResult now taskId r s =
     s\<lparr>tasks := map (\<lambda>task. if id_Task task = taskId
                              then task\<lparr>result := Some r, updated_at := now\<rparr> else task) (tasks s)\<rparr>"

definition getTasksByStatus :: "TaskStatus \<Rightarrow> TaskState \<Rightarrow> Task list" where
  "getTasksByStatus st s = filter (\<lambda>task. status task = st) (tasks s)"

text \<open>
  \<open>getRecentTasks\<close> sorts \<open>state.tasks\<close> with the comparator
  \<open>new Date(b.created_at).getTime() - new Date(a.created_at).getTime()\<close> and slices the
  first \<open>limit\<close> elements (\<open>limit = 10\<close> when the argument is missing).
  \<open>Array.prototype.sort\<close> sorts in place, so the store's own array is reordered as well:
  the model returns the slice and the state after the sort.

  The \<open>Date\<close> constructor and \<open>getTime\<close> belong to the platform: their composition is the
  parameter \<open>getTime\<close>, from the timestamp text to \<open>Some\<close> milliseconds, or to \<open>None\<close> for
  a text that does not parse, where \<open>getTime()\<close> is NaN. A difference with a NaN operand
  is NaN (\<open>sub_time\<close>), and the sort takes a comparator result that is NaN as 0.
  The sort is stable (ECMAScript 2019): for a consistent comparator its result is the one
  stable sorted permutation, computed here by insertion from the right. With NaN results
  the comparator is not consistent and the standard leaves the order to the engine; the
  insertion then keeps as neighbours the elements the comparator calls equal.
  \<open>slice(0, end)\<close> counts a negative \<open>end\<close> from the end of the array.
\<close>

definition sub_time :: "int option \<Rightarrow> int option \<Rightarrow> int option" where
  "sub_time x y = (case (x, y) of (Some a, Some b) \<Rightarrow> Some (a - b) | _ \<Rightarrow> None)"

fun insort_cmp :: "('a \<Rightarrow> 'a \<Rightarrow> int option) \<Rightarrow> 'a \<Rightarrow> 'a list \<Rightarrow> 'a list" where
  "insort_cmp cmp x [] = [x]"
| "insort_cmp cmp x (y # ys) =
     (if (case cmp x y of None \<Rightarrow> 0 | Some v \<Rightarrow> v) \<le> 0 then x # y # ys
      else y # insort_cmp cmp x ys)"

fun sort_js :: "('a \<Rightarrow> 'a \<Rightarrow> int option) \<Rightarrow> 'a list \<Rightarrow> 'a list" where
  "sort_js cmp [] = []"
| "sort_js cmp (x # xs) = insort_cmp cmp x (sort_js cmp xs)"

definition slice0 :: "'a list \<Rightarrow> int \<Rightarrow> 'a list" where
  "slice0 xs end =
     (let len = int (length xs);
          final = (if end < 0 then max (len + end) 0 else min end len)
      in take (nat final) xs)"

definition getRecentTasks ::
  "(string \<Rightarrow> int option) \<Rightarrow> int option \<Rightarrow> TaskState \<Rightarrow> Task list \<times> TaskState" where
  "getRecentTasks getTime limit s =
     (let lim = (case limit of None \<Rightarrow> 10 | Some l \<Rightarrow> l);
          sorted_tasks = sort_js (\<lambda>a b. sub_time (getTime (created_at b)) (getTime (created_at a)))
                           (tasks s)
      in (slice0 sorted_tasks lim, s\<lparr>tasks := sorted_tasks\<rparr>))"

text \<open>
  Task \<open>a\<close> is at least as recent as task \<open>b\<close>: both creation times parse, and that of \<open>a\<close>
  is not before that of \<open>b\<close>.
\<close>

definition at_least_as_recent :: "(string \<Rightarrow> int option) \<Rightarrow> Task \<Rightarrow> Task \<Rightarrow> bool" where
  "at_least_as_recent getTime a b =
     (case (getTime (created_at a), getTime (created_at b)) of
        (Some x, Some y) \<Rightarrow> y \<le> x
      | _ \<Rightarrow> False)"

subsection \<open>The task state machine of the specification\<close>

text \<open>
  These two definitions follow the words of the specification, not the store: the terminal
  states are COMPLETED, FAILED and CANCELLED, and the transitions are QUEUED to RUNNING,
  RUNNING to COMPLETED or FAILED, and QUEUED or RUNNING to CANCELLED. The store's actions
  are compared with them below.
\<close>

definition is_terminal :: "TaskStatus \<Rightarrow> bool" where
  "is_terminal st = (st = COMPLETED \<or> st = FAILED \<or> st = CANCELLED)"

fun spec_transition :: "TaskStatus \<Rightarrow> TaskStatus \<Rightarrow> bool" where
  "spec_transition QUEUED RUNNING = True"
| "spec_transition RUNNING COMPLETED = True"
| "spec_transition RUNNING FAILED = True"
| "spec_transition QUEUED CANCELLED = True"
| "spec_transition RUNNING CANCELLED = True"
| "spec_transition _ _ = False"

subsection \<open>Example values\<close>

definition log_a :: TaskLog where
  "log_a = \<lparr>id_TaskLog = ''l1'', task_id = ''t1'', level = INFO, message = ''started'',
            step = None, created_at_TaskLog = ''2024-01-01T00:00:00.000Z''\<rparr>"

definition log_b :: TaskLog where
  "log_b = \<lparr>id_TaskLog = ''l2'', task_id = ''t1'', level = WARNING, message = ''slow'',
            step = Some ''collect'', created_at_TaskLog = ''2024-01-01T00:00:01.000Z''\<rparr>"

definition log_c :: TaskLog where
  "log_c = \<lparr>id_TaskLog = ''l3'', task_id = ''t2'', level = ERROR, message = ''failed'',
            step = None, created_at_TaskLog = ''2024-01-01T00:00:02.000Z''\<rparr>"

definition logs_state :: TaskState where
  "logs_state = \<lparr>tasks = [], currentTask = None,
                 taskLogs = [''t1'' \<mapsto> [log_a], ''t2'' \<mapsto> [log_c]]\<rparr>"

definition task_running :: Task where
  "task_running = \<lparr>id_Task = ''t1'', product_name = ''Widget X'', status = RUNNING, progress = 50,
     created_at = ''2024-01-01T10:00:00.000Z'', updated_at = ''2024-01-01T10:05:00.000Z'',
     completed_at = None, user_id = ''u1'', result = None, logs = None\<rparr>"

definition task_completed :: Task where
  "task_completed = \<lparr>id_Task = ''t2'', product_name = ''Widget Y'', status = COMPLETED, progress = 100,
     created_at = ''2024-01-01T09:00:00.000Z'', updated_at = ''2024-01-01T09:30:00.000Z'',
     completed_at = Some ''2024-01-01T09:30:00.000Z'', user_id = ''u1'', result = None, logs = None\<rparr>"

definition task_queued :: Task where
  "task_queued = \<lparr>id_Task = ''t3'', product_name = ''Widget Z'', status = QUEUED, progress = 0,
     created_at = ''2024-01-01T11:00:00.000Z'', updated_at = ''2024-01-01T11:00:00.000Z'',
     completed_at = None, user_id = ''u2'', result = None, logs = None\<rparr>"

definition store3 :: TaskState where
  "store3 = \<lparr>tasks = [task_running, task_completed, task_queued], currentTask = None,
              taskLogs = Map.empty\<rparr>"

definition result_r :: AnalysisResult where
  "result_r = \<lparr>id_AnalysisResult = ''r1'', task_id_AnalysisResult = ''t3'',
     market_analysis = \<lparr>market_size = ''large'', target_audience = ''makers'',
                         competitive_landscape = ''crowded'', market_trends = ''growing''\<rparr>,
     product_analysis = \<lparr>strengths = [''cheap''], weaknesses = [], opportunities = [], threats = []\<rparr>,
     recommendations = \<lparr>short_term = [''ship''], medium_term = [], long_term = []\<rparr>,
     data_visualization = \<lparr>charts = []\<rparr>,
     created_at_AnalysisResult = ''2024-01-01T12:00:00.000Z''\<rparr>"

definition clock :: "string \<Rightarrow> int option" where
  "clock str = (if str = ''2024-01-01T09:00:00.000Z'' then Some 1704099600000
                else if str = ''2024-01-01T10:00:00.000Z'' then Some 1704103200000
                else if str = ''2024-01-01T11:00:00.000Z'' then Some 1704106800000
                else None)"

definition task_bad :: Task where
  "task_bad = \<lparr>id_Task = ''t4'', product_name = ''Widget W'', status = QUEUED, progress = 0,
     created_at = ''yesterday'', updated_at = ''2024-01-01T11:30:00.000Z'',
     completed_at = None, user_id = ''u2'', result = None, logs = None\<rparr>"

definition store_bad :: TaskState where
  "store_bad = \<lparr>tasks = [task_running, task_bad, task_queued], currentTask = None,
                 taskLogs = Map.empty\<rparr>"

section \<open>The application store (useAppStore): notifications\<close>

text \<open>
  The application store keeps its notifications newest first: \<open>addNotification\<close> puts
  the new one in front and keeps the first ten. Its id is \<open>Date.now().toString()\<close>, the
  decimal text of the clock reading \<open>now\<close>; \<open>notification.duration || 5000\<close> replaces a
  missing or zero duration. When the duration is positive a timer is set, whose callback
  filters the notification out by id: the action returns the next state and the timer it
  set (id and delay), and \<open>notificationTimeout\<close> is the callback. The argument of the
  action, a notification without its id, is a \<open>NotificationInput\<close>. The store's other
  fields of this section are \<open>wsConnected\<close>, \<open>wsReconnecting\<close> and \<open>sidebarOpen\<close>; its task
  list is not used here.
\<close>

datatype NotificationType = N_success | N_error | N_info | N_warning

record NotificationInput =
  type_in :: NotificationType
  title_in :: string
  message_in :: string
  duration_in :: "int option"

record Notification =
  id_Notification :: string
  type_Notification :: NotificationType
  title_Notification :: string
  message_Notification :: string
  duration_Notification :: "int option"

record AppState =
  notifications :: "Notification list"
  wsConnected :: bool
  wsReconnecting :: bool
  sidebarOpen :: bool

definition initialAppState :: AppState where
  "initialAppState = \<lparr>notifications = [], wsConnected = False, wsReconnecting = False,
                       sidebarOpen = True\<rparr>"

fun string_of_nat :: "nat \<Rightarrow> string" where
  "string_of_nat n =
     (if n < 10 then [char_of (48 + n)]
      else string_of_nat (n div 10) @ [char_of (48 + n mod 10)])"

definition newNotification :: "nat \<Rightarrow> NotificationInput \<Rightarrow> Notification" where
  "newNotification now n =
     \<lparr>id_Notification = string_of_nat now,
      type_Notification = type_in n,
      title_Notification = title_in n,
      message_Notification = message_in n,
      duration_Notification =
        Some (case duration_in n of None \<Rightarrow> 5000 | Some d \<Rightarrow> if d = 0 then 5000 else d)\<rparr>"

definition addNotification :: "nat \<Rightarrow> NotificationInput \<Rightarrow> AppState \<Rightarrow> AppState \<times> (string \<times> int) option" where
  "addNotification now n s =
     (let nn = newNotification now n;
          s' = s\<lparr>notifications := slice0 (nn # notifications s) 10\<rparr>;
          timer = (case duration_Notification nn of
                     Some d \<Rightarrow> if d \<noteq> 0 \<and> d > 0 then Some (id_Notification nn, d) else None
                   | None \<Rightarrow> None)
      in (s', timer))"

definition notificationTimeout :: "string \<Rightarrow> AppState \<Rightarrow> AppState" where
  "notificationTimeout ident s =
     s\<lparr>notifications := filter (\<lambda>n. id_Notification n \<noteq> ident) (notifications s)\<rparr>"

definition removeNotification :: "string \<Rightarrow> AppState \<Rightarrow> AppState" where
  "removeNotification ident s =
     s\<lparr>notifications := filter (\<lambda>n. id_Notification n \<noteq> ident) (notifications s)\<rparr>"

definition clearNotifications :: "AppState \<Rightarrow> AppState" where
  "clearNotifications s = s\<lparr>notifications := []\<rparr>"

text \<open>
  What happens to the notification list over time: a notification is enqueued, a timer
  fires, a notification is removed by hand, or the list is cleared.
\<close>

datatype AppEvent =
  Enqueue nat NotificationInput
| TimerFired string
| Removed string
| Cleared

fun app_step :: "AppState \<Rightarrow> AppEvent \<Rightarrow> AppState" where
  "app_step s (Enqueue now n) = fst (addNotification now n s)"
| "app_step s (TimerFired ident) = notificationTimeout ident s"
| "app_step s (Removed ident) = removeNotification ident s"
| "app_step s Cleared = clearNotifications s"

subsection \<open>Example values\<close>

definition note_in :: NotificationInput where
  "note_in = \<lparr>type_in = N_info, title_in = ''Task'', message_in = ''updated'', duration_in = None\<rparr>"

definition full_queue :: AppState where
  "full_queue = foldl app_step initialAppState
                  (map (\<lambda>t. Enqueue t note_in) [1, 2, 3, 4, 5, 6, 7, 8, 9, 10])"

section \<open>The WebSocket service (WebSocketService)\<close>

text \<open>
  The service holds a socket.io socket (absent after \<open>disconnect\<close>), its reconnection
  settings and the listener registry, a \<open>Map\<close> from event name to an array of callbacks.

  The arrays are objects that \<open>push\<close> and \<open>splice\<close> change in place, and \<open>emit\<close> walks the
  very array that \<open>off\<close> splices. So the registry maps an event name to the address of its
  array, and \<open>arrays\<close> is the part of the heap that holds the arrays, with \<open>next_array\<close> the
  next unused address, where \<open>[]\<close> allocates.

  A callback is a function object: \<open>indexOf\<close> compares function objects by identity, so
  the arrays hold references (\<open>callback\<close>, a number naming the function object). What a
  referenced function does when it is called is given by a table \<open>h\<close>: from the reference,
  the data and the state before the call (the service, which the function can reach and
  change through the exported \<open>websocketService\<close>, and the world outside it) to \<open>Some\<close> error
  when the call throws or \<open>None\<close> when it returns, and the state after the call.
\<close>

type_synonym callback = nat

type_synonym address = nat

record Socket =
  connected :: bool

record WebSocketService =
  socket :: "Socket option"
  reconnectAttempts :: nat
  maxReconnectAttempts :: nat
  reconnectInterval :: nat
  listeners :: "string \<rightharpoonup> address"
  arrays :: "address \<Rightarrow> callback list"
  next_array :: address

text \<open>The callbacks registered for an event, in order, when the event has an entry.\<close>

definition callbacks_of :: "WebSocketService \<Rightarrow> string \<Rightarrow> callback list option" where
  "callbacks_of s event = map_option (arrays s) (listeners s event)"

definition on :: "string \<Rightarrow> callback \<Rightarrow> WebSocketService \<Rightarrow> WebSocketService" where
  "on event cb s =
     (let s1 = (case listeners s event of
                  None \<Rightarrow> s\<lparr>listeners := (listeners s)(event \<mapsto> next_array s),
                            arrays := (arrays s)(next_array s := []),
                            next_array := Suc (next_array s)\<rparr>
                | Some _ \<Rightarrow> s)
      in (case listeners s1 event of
            Some a \<Rightarrow> s1\<lparr>arrays := (arrays s1)(a := arrays s1 a @ [cb])\<rparr>
          | None \<Rightarrow> s1))"

text \<open>\<open>Array.prototype.indexOf\<close>: the first index holding the element, or -1.\<close>

fun indexOf :: "'a list \<Rightarrow> 'a \<Rightarrow> int" where
  "indexOf [] x = -1"
| "indexOf (y # ys) x =
     (if y = x then 0 else (let i = indexOf ys x in if i < 0 then -1 else i + 1))"

text \<open>\<open>splice(index, 1)\<close> for an index in range: the array without that element.\<close>

definition splice1 :: "'a list \<Rightarrow> nat \<Rightarrow> 'a list" where
  "splice1 xs i = take i xs @ drop (Suc i) xs"

definition off :: "string \<Rightarrow> callback option \<Rightarrow> WebSocketService \<Rightarrow> WebSocketService" where
  "off event callback s =
     (case listeners s event of
        None \<Rightarrow> s
      | Some a \<Rightarrow>
          (case callback of
             Some cb \<Rightarrow>
               (let callbacks = arrays s a;
                    index = indexOf callbacks cb
                in if index > -1
                   then s\<lparr>arrays := (arrays s)(a := splice1 callbacks (nat index))\<rparr>
                   else s)
           | None \<Rightarrow> s\<lparr>listeners := (listeners s)(event := None)\<rparr>))"

text \<open>
  \<open>disconnect\<close> drops the socket and clears the registry; the arrays themselves are not
  touched.
\<close>

definition disconnect :: "WebSocketService \<Rightarrow> WebSocketService" where
  "disconnect s = s\<lparr>socket := None, listeners := Map.empty\<rparr>"





text \<open>
  \<open>send\<close> hands the message to the socket when there is one and it is connected, and
  otherwise only warns on the console.
\<close>

datatype 'd sent = SocketEmit string 'd | ConsoleWarn string

definition send :: "string \<Rightarrow> 'd \<Rightarrow> WebSocketService \<Rightarrow> 'd sent" where
  "send event d s =
     (case socket s of
        Some sock \<Rightarrow> if connected sock then SocketEmit event d
                     else ConsoleWarn ''WebSocket not connected, cannot send message''
      | None \<Rightarrow> ConsoleWarn ''WebSocket not connected, cannot send message'')"

record TaskRef =
  task_id_TaskRef :: string

definition subscribeToTask :: "string \<Rightarrow> WebSocketService \<Rightarrow> TaskRef sent" where
  "subscribeToTask taskId s = send ''subscribe_task'' \<lparr>task_id_TaskRef = taskId\<rparr> s"

definition unsubscribeFromTask :: "string \<Rightarrow> WebSocketService \<Rightarrow> TaskRef sent" where
  "unsubscribeFromTask taskId s = send ''unsubscribe_task'' \<lparr>task_id_TaskRef = taskId\<rparr> s"

definition isConnected :: "WebSocketService \<Rightarrow> bool" where
  "isConnected s = (case socket s of Some sock \<Rightarrow> connected sock | None \<Rightarrow> False)"

subsection \<open>Example values\<close>

text \<open>A service with no listeners, and the services that \<open>on\<close> makes of it.\<close>

definition service_empty :: WebSocketService where
  "service_empty = \<lparr>socket = Some \<lparr>connected = True\<rparr>, reconnectAttempts = 0,
     maxReconnectAttempts = 5, reconnectInterval = 3000,
     listeners = Map.empty, arrays = (\<lambda>a. []), next_array = 0\<rparr>"

definition service_twice :: WebSocketService where
  "service_twice = on ''task_update'' 1 (on ''task_update'' 1 service_empty)"

definition service_two :: WebSocketService where
  "service_two = on ''task_update'' 2 (on ''task_update'' 1 service_empty)"




section \<open>The server side of a subscription (Session Manager and Event Broadcaster)\<close>

text \<open>
  The frontend only asks for a subscription (\<open>subscribeToTask\<close>); what a subscriber is then
  sent is decided by the backend's subscription handler and broadcaster, whose code is not
  among the sources. The definitions of this section are modelled from the specification
  (its sections 3, 4.1, 4.3, 4.5, 4.6 and 6), for one task and its subscribers.
\<close>

text \<open>
  Modelled from the spec: the events of the broadcaster, which is missing from the sources.
  A \<open>task_update\<close> carries status and progress, a \<open>task_log\<close> a log entry, and the snapshot
  the current status, the progress and the tail of the recent logs.
\<close>

datatype Event =
  Snapshot TaskStatus real "TaskLog list"
| Task_update TaskStatus real
| Task_log TaskLog

type_synonym subscriber = nat

text \<open>
  Modelled from the spec: the state of the missing Task Store, Event Broadcaster and
  Session Manager for one task: the task's status, progress and logs; for each registered
  subscriber its own bounded outbound queue (capacity \<open>hub_capacity\<close>, oldest event first);
  and, for each subscriber, the events sent to it so far, in order.
\<close>

record Hub =
  hub_task_id :: string
  hub_status :: TaskStatus
  hub_progress :: real
  hub_logs :: "TaskLog list"
  hub_capacity :: nat
  hub_tail :: nat
  hub_queues :: "subscriber \<rightharpoonup> Event list"
  hub_received :: "subscriber \<Rightarrow> Event list"





text \<open>
  Modelled from the spec: the missing Session Manager's \<open>subscribe\<close> and \<open>unsubscribe\<close>.
  \<open>subscribe\<close> registers the subscriber with the broadcaster and immediately sends it a
  snapshot (current status, progress, tail of the recent logs), before any live event;
  \<open>unsubscribe\<close> removes the registration.
\<close>

definition tail_logs :: "Hub \<Rightarrow> TaskLog list" where
  "tail_logs h = drop (length (hub_logs h) - hub_tail h) (hub_logs h)"

definition subscribe :: "subscriber \<Rightarrow> Hub \<Rightarrow> Hub" where
  "subscribe sub h =
     h\<lparr>hub_queues := (case hub_queues h sub of
                         None \<Rightarrow> (hub_queues h)(sub \<mapsto> [])
                       | Some q \<Rightarrow> hub_queues h),
       hub_received := (hub_received h)
         (sub := hub_received h sub @ [Snapshot (hub_status h) (hub_progress h) (tail_logs h)])\<rparr>"

definition unsubscribe :: "subscriber \<Rightarrow> Hub \<Rightarrow> Hub" where
  "unsubscribe sub h = h\<lparr>hub_queues := (hub_queues h)(sub := None)\<rparr>"





text \<open>
  Modelled from the spec: the missing handler of the subscription protocol. The message is
  what the frontend's \<open>send\<close> produced: a \<open>subscribe_task\<close> or \<open>unsubscribe_task\<close> for this
  task is handled, and nothing reaches the server when the frontend only warned.
\<close>

definition handle_message :: "subscriber \<Rightarrow> TaskRef sent \<Rightarrow> Hub \<Rightarrow> Hub" where
  "handle_message sub msg h =
     (case msg of
        SocketEmit event ref \<Rightarrow>
          if event = ''subscribe_task'' \<and> task_id_TaskRef ref = hub_task_id h then subscribe sub h
          else if event = ''unsubscribe_task'' \<and> task_id_TaskRef ref = hub_task_id h
               then unsubscribe sub h
          else h
      | ConsoleWarn _ \<Rightarrow> h)"










subsection \<open>Example values\<close>





section \<open>Task logs are append-only under addTaskLog\<close>

text \<open>
  C5. After \<open>addTaskLog taskId entry\<close> the log sequence read by \<open>getTaskLogs taskId\<close> is the
  previous sequence with \<open>entry\<close> appended at the end, so every earlier entry is still there,
  unchanged and at the same position; the log sequence of every other task id, and its
  entry in the map, is unchanged, and so are the tasks.
\<close>

theorem addTaskLog_appends:
  "getTaskLogs taskId (addTaskLog taskId entry s) = getTaskLogs taskId s @ [entry]
   \<and> (\<forall>i < length (getTaskLogs taskId s).
         getTaskLogs taskId (addTaskLog taskId entry s) ! i = getTaskLogs taskId s ! i)
   \<and> (\<forall>other. other \<noteq> taskId \<longrightarrow>
         getTaskLogs other (addTaskLog taskId entry s) = getTaskLogs other s
         \<and> taskLogs (addTaskLog taskId entry s) other = taskLogs s other)
   \<and> tasks (addTaskLog taskId entry s) = tasks s"
  by (simp add: addTaskLog_def getTaskLogs_def nth_append split: option.split)

theorem addTaskLog_appends_witness:
  "getTaskLogs ''t1'' (addTaskLog ''t1'' log_b logs_state) = [log_a, log_b]
   \<and> getTaskLogs ''t1'' (addTaskLog ''t1'' log_b logs_state) ! 0 = log_a
   \<and> ''t2'' \<noteq> ''t1''
   \<and> getTaskLogs ''t2'' (addTaskLog ''t1'' log_b logs_state) = [log_c]
   \<and> getTaskLogs ''t3'' (addTaskLog ''t3'' log_b logs_state) = [log_b]"
  using addTaskLog_appends [of "''t1''" log_b logs_state]
        addTaskLog_appends [of "''t3''" log_b logs_state]
  by (simp add: getTaskLogs_def logs_state_def)

section \<open>The update actions overwrite, whatever the status\<close>

text \<open>
  C1, as the store has it. \<open>updateTaskProgress\<close> overwrites the progress of each task whose
  id is \<open>taskId\<close> with the value it is given, whatever the task's status and whatever its
  progress was, and leaves every other task as it is; it keeps the number of tasks and
  every status. So the progress of a task does not decrease across the call exactly when
  the id differs or the new value is at least the old one, and it is unchanged exactly
  when the id differs or the new value equals the old one.
\<close>

theorem updateTaskProgress_overwrites:
  assumes "i < length (tasks s)"
  shows "length (tasks (updateTaskProgress now taskId p s)) = length (tasks s)
   \<and> (id_Task (tasks s ! i) = taskId \<longrightarrow>
        tasks (updateTaskProgress now taskId p s) ! i = (tasks s ! i)\<lparr>progress := p, updated_at := now\<rparr>)
   \<and> (id_Task (tasks s ! i) \<noteq> taskId \<longrightarrow>
        tasks (updateTaskProgress now taskId p s) ! i = tasks s ! i)
   \<and> (progress (tasks s ! i) \<le> progress (tasks (updateTaskProgress now taskId p s) ! i)
        \<longleftrightarrow> id_Task (tasks s ! i) \<noteq> taskId \<or> progress (tasks s ! i) \<le> p)
   \<and> (progress (tasks (updateTaskProgress now taskId p s) ! i) = progress (tasks s ! i)
        \<longleftrightarrow> id_Task (tasks s ! i) \<noteq> taskId \<or> p = progress (tasks s ! i))
   \<and> status (tasks (updateTaskProgress now taskId p s) ! i) = status (tasks s ! i)"
  using assms by (auto simp: updateTaskProgress_def)

text \<open>The theorem at a store of three tasks: the RUNNING task goes from 50 to 80.\<close>

theorem updateTaskProgress_overwrites_witness:
  "(0::nat) < length (tasks store3) \<and> id_Task (tasks store3 ! 0) = ''t1''
   \<and> status (tasks store3 ! 0) = RUNNING
   \<and> progress (tasks store3 ! 0) = 50
   \<and> progress (tasks (updateTaskProgress ''2024-01-01T10:06:00.000Z'' ''t1'' 80 store3) ! 0) = 80
   \<and> tasks (updateTaskProgress ''2024-01-01T10:06:00.000Z'' ''t1'' 80 store3) ! 1 = tasks store3 ! 1"
  using updateTaskProgress_overwrites [of 0 store3 "''2024-01-01T10:06:00.000Z''" "''t1''" 80]
        updateTaskProgress_overwrites [of 1 store3 "''2024-01-01T10:06:00.000Z''" "''t1''" 80]
  by (simp add: store3_def task_running_def task_completed_def)

text \<open>
  C1 as stated fails: the progress of a RUNNING task drops from 50 to 10, and the
  progress of a COMPLETED task changes from 100 to 0.
\<close>

theorem updateTaskProgress_counterexample:
  "status (tasks store3 ! 0) = RUNNING
   \<and> progress (tasks (updateTaskProgress ''2024-01-01T10:06:00.000Z'' ''t1'' 10 store3) ! 0)
       < progress (tasks store3 ! 0)
   \<and> is_terminal (status (tasks store3 ! 1))
   \<and> progress (tasks (updateTaskProgress ''2024-01-01T10:06:00.000Z'' ''t2'' 0 store3) ! 1)
       \<noteq> progress (tasks store3 ! 1)"
  by (simp add: updateTaskProgress_def store3_def task_running_def task_completed_def
                task_queued_def is_terminal_def)

text \<open>
  C2, as the store has it. \<open>updateTaskStatus\<close> sets the status of each task whose id is
  \<open>taskId\<close> to the status it is given, whatever the current status, and leaves every other
  task as it is; progress and result are kept.
\<close>

theorem updateTaskStatus_overwrites:
  assumes "i < length (tasks s)"
  shows "length (tasks (updateTaskStatus now taskId st s)) = length (tasks s)
   \<and> (id_Task (tasks s ! i) = taskId \<longrightarrow>
        tasks (updateTaskStatus now taskId st s) ! i = (tasks s ! i)\<lparr>status := st, updated_at := now\<rparr>
        \<and> status (tasks (updateTaskStatus now taskId st s) ! i) = st)
   \<and> (id_Task (tasks s ! i) \<noteq> taskId \<longrightarrow>
        tasks (updateTaskStatus now taskId st s) ! i = tasks s ! i)
   \<and> progress (tasks (updateTaskStatus now taskId st s) ! i) = progress (tasks s ! i)
   \<and> result (tasks (updateTaskStatus now taskId st s) ! i) = result (tasks s ! i)"
  using assms by (auto simp: updateTaskStatus_def)

text \<open>The theorem at the store of three tasks: the COMPLETED task is set to RUNNING.\<close>

theorem updateTaskStatus_overwrites_witness:
  "(1::nat) < length (tasks store3) \<and> id_Task (tasks store3 ! 1) = ''t2''
   \<and> status (tasks store3 ! 1) = COMPLETED
   \<and> status (tasks (updateTaskStatus ''2024-01-01T10:06:00.000Z'' ''t2'' RUNNING store3) ! 1) = RUNNING
   \<and> tasks (updateTaskStatus ''2024-01-01T10:06:00.000Z'' ''t2'' RUNNING store3) ! 0 = tasks store3 ! 0"
  using updateTaskStatus_overwrites [of 1 store3 "''2024-01-01T10:06:00.000Z''" "''t2''" RUNNING]
        updateTaskStatus_overwrites [of 0 store3 "''2024-01-01T10:06:00.000Z''" "''t2''" RUNNING]
  by (simp add: store3_def task_running_def task_completed_def)

text \<open>
  C2 as stated fails: a COMPLETED task is set back to QUEUED, which is a change of status
  out of a terminal state and not one of the five transitions.
\<close>

theorem updateTaskStatus_counterexample:
  "is_terminal (status (tasks store3 ! 1))
   \<and> status (tasks (updateTaskStatus ''2024-01-01T10:06:00.000Z'' ''t2'' QUEUED store3) ! 1)
       \<noteq> status (tasks store3 ! 1)
   \<and> \<not> spec_transition (status (tasks store3 ! 1))
          (status (tasks (updateTaskStatus ''2024-01-01T10:06:00.000Z'' ''t2'' QUEUED store3) ! 1))"
  by (simp add: updateTaskStatus_def store3_def task_running_def task_completed_def
                task_queued_def is_terminal_def)

text \<open>
  C6, as the store has it. \<open>updateTaskResult\<close> sets the result of each task whose id is
  \<open>taskId\<close> to the result it is given, whatever the task's status and whether or not it
  had a result, and leaves every other task as it is; it changes no status and no
  progress.
\<close>

theorem updateTaskResult_overwrites:
  assumes "i < length (tasks s)"
  shows "length (tasks (updateTaskResult now taskId r s)) = length (tasks s)
   \<and> (id_Task (tasks s ! i) = taskId \<longrightarrow>
        tasks (updateTaskResult now taskId r s) ! i = (tasks s ! i)\<lparr>result := Some r, updated_at := now\<rparr>
        \<and> result (tasks (updateTaskResult now taskId r s) ! i) = Some r)
   \<and> (id_Task (tasks s ! i) \<noteq> taskId \<longrightarrow>
        tasks (updateTaskResult now taskId r s) ! i = tasks s ! i)
   \<and> status (tasks (updateTaskResult now taskId r s) ! i) = status (tasks s ! i)
   \<and> progress (tasks (updateTaskResult now taskId r s) ! i) = progress (tasks s ! i)"
  using assms by (auto simp: updateTaskResult_def)

text \<open>The theorem at the store of three tasks: the RUNNING task gets a result and stays RUNNING.\<close>

theorem updateTaskResult_overwrites_witness:
  "(0::nat) < length (tasks store3) \<and> id_Task (tasks store3 ! 0) = ''t1''
   \<and> status (tasks store3 ! 0) = RUNNING
   \<and> result (tasks (updateTaskResult ''2024-01-01T10:06:00.000Z'' ''t1'' result_r store3) ! 0) = Some result_r
   \<and> status (tasks (updateTaskResult ''2024-01-01T10:06:00.000Z'' ''t1'' result_r store3) ! 0) = RUNNING
   \<and> tasks (updateTaskResult ''2024-01-01T10:06:00.000Z'' ''t1'' result_r store3) ! 2 = tasks store3 ! 2"
  using updateTaskResult_overwrites [of 0 store3 "''2024-01-01T10:06:00.000Z''" "''t1''" result_r]
        updateTaskResult_overwrites [of 2 store3 "''2024-01-01T10:06:00.000Z''" "''t1''" result_r]
  by (simp add: store3_def task_running_def task_completed_def task_queued_def)

text \<open>
  C6 as stated fails: a QUEUED task without a result gets the result attached, and it is
  still QUEUED afterwards.
\<close>

theorem updateTaskResult_counterexample:
  "status (tasks store3 ! 2) = QUEUED
   \<and> result (tasks store3 ! 2) = None
   \<and> result (tasks (updateTaskResult ''2024-01-01T10:06:00.000Z'' ''t3'' result_r store3) ! 2)
       = Some result_r
   \<and> status (tasks (updateTaskResult ''2024-01-01T10:06:00.000Z'' ''t3'' result_r store3) ! 2)
       = QUEUED"
  by (simp add: updateTaskResult_def store3_def task_running_def task_completed_def
                task_queued_def)

section \<open>Removing a task\<close>

lemma filter_neq_remove1:
  "distinct (map f xs) \<Longrightarrow> t \<in> set xs \<Longrightarrow> filter (\<lambda>x. f x \<noteq> f t) xs = remove1 t xs"
proof (induction xs)
  case Nil
  then show ?case by simp
next
  case (Cons x xs)
  show ?case
  proof (cases "x = t")
    case True
    with Cons.prems have "f t \<notin> f ` set xs" by simp
    then have "\<forall>y \<in> set xs. f y \<noteq> f t" by (metis imageI)
    then have "filter (\<lambda>x. f x \<noteq> f t) xs = xs" by (simp add: filter_id_conv)
    with True show ?thesis by simp
  next
    case False
    with Cons.prems have "t \<in> set xs" and "f x \<noteq> f t" by auto
    with Cons show ?thesis using False by simp
  qed
qed

text \<open>
  C7, as the store has it. \<open>removeTask\<close> returns a state and has no error to raise. The
  task list after it is the list before without the tasks whose id is \<open>taskId\<close>, whatever
  their status: every other task is kept, as often as it occurred and in the same order.
  Where the ids of the store are distinct it removes exactly the one task with that id.
  The current task and the logs are untouched.
\<close>

theorem removeTask_removes_matching:
  "tasks (removeTask taskId s) = filter (\<lambda>t. id_Task t \<noteq> taskId) (tasks s)
   \<and> (\<forall>t. count_list (tasks (removeTask taskId s)) t
            = (if id_Task t = taskId then 0 else count_list (tasks s) t))
   \<and> (\<forall>t. t \<in> set (tasks (removeTask taskId s)) \<longleftrightarrow> t \<in> set (tasks s) \<and> id_Task t \<noteq> taskId)
   \<and> subseq (tasks (removeTask taskId s)) (tasks s)
   \<and> (distinct (map id_Task (tasks s)) \<longrightarrow>
        (\<forall>t \<in> set (tasks s). id_Task t = taskId \<longrightarrow>
           tasks (removeTask taskId s) = remove1 t (tasks s)
           \<and> mset (tasks (removeTask taskId s)) = mset (tasks s) - {#t#}))
   \<and> currentTask (removeTask taskId s) = currentTask s
   \<and> taskLogs (removeTask taskId s) = taskLogs s"
proof -
  have r: "tasks (removeTask taskId s) = remove1 t (tasks s)"
    if "distinct (map id_Task (tasks s))" "t \<in> set (tasks s)" "id_Task t = taskId" for t
    using filter_neq_remove1 [of id_Task "tasks s" t] that by (simp add: removeTask_def)
  have c: "count_list (filter (\<lambda>t. id_Task t \<noteq> taskId) xs) t
            = (if id_Task t = taskId then 0 else count_list xs t)" for xs t
    by (induction xs) auto
  have 1: "tasks (removeTask taskId s) = filter (\<lambda>t. id_Task t \<noteq> taskId) (tasks s)"
    by (simp add: removeTask_def)
  have 2: "\<forall>t. count_list (tasks (removeTask taskId s)) t
            = (if id_Task t = taskId then 0 else count_list (tasks s) t)"
    unfolding 1 by (simp only: c) simp
  have 3: "\<forall>t. t \<in> set (tasks (removeTask taskId s)) \<longleftrightarrow> t \<in> set (tasks s) \<and> id_Task t \<noteq> taskId"
    unfolding 1 by auto
  have 4: "subseq (tasks (removeTask taskId s)) (tasks s)"
    unfolding 1 by simp
  have 5: "distinct (map id_Task (tasks s)) \<longrightarrow>
        (\<forall>t \<in> set (tasks s). id_Task t = taskId \<longrightarrow>
           tasks (removeTask taskId s) = remove1 t (tasks s)
           \<and> mset (tasks (removeTask taskId s)) = mset (tasks s) - {#t#})"
    using r by auto
  have 6: "currentTask (removeTask taskId s) = currentTask s
   \<and> taskLogs (removeTask taskId s) = taskLogs s"
    by (simp add: removeTask_def)
  show ?thesis using 1 2 3 4 5 6 by blast
qed

text \<open>
  The theorem at the store of three tasks, removing the RUNNING one and the QUEUED one, and
  at a store that holds the same task twice, where both copies are kept.
\<close>

theorem removeTask_removes_matching_witness:
  "distinct (map id_Task (tasks store3)) \<and> task_running \<in> set (tasks store3)
   \<and> id_Task task_running = ''t1'' \<and> status task_running = RUNNING
   \<and> tasks (removeTask ''t1'' store3) = [task_completed, task_queued]
   \<and> tasks (removeTask ''t3'' store3) = [task_running, task_completed]
   \<and> tasks (removeTask ''t1'' (setTasks [task_completed, task_running, task_completed] store3))
       = [task_completed, task_completed]"
  using removeTask_removes_matching [of "''t1''" store3]
        removeTask_removes_matching [of "''t3''" store3]
        removeTask_removes_matching
          [of "''t1''" "setTasks [task_completed, task_running, task_completed] store3"]
  by (simp add: setTasks_def store3_def task_running_def task_completed_def task_queued_def)

text \<open>C7 as stated fails: a RUNNING task is removed from the store.\<close>

theorem removeTask_counterexample:
  "status task_running = RUNNING \<and> task_running \<in> set (tasks store3)
   \<and> task_running \<notin> set (tasks (removeTask (id_Task task_running) store3))"
  by (simp add: removeTask_def store3_def task_running_def task_completed_def task_queued_def)

section \<open>The most recent tasks\<close>

text \<open>
  Where every creation time parses, the insertion sort with this comparator is the
  library's stable sort by the negated time.
\<close>

lemma insort_cmp_key:
  assumes "k x \<noteq> None" and "\<forall>y \<in> set xs. k y \<noteq> None"
  shows "insort_cmp (\<lambda>a b. sub_time (k b) (k a)) x xs = insort_key (\<lambda>t. - the (k t)) x xs"
  using assms by (induction xs) (auto simp: sub_time_def)

lemma sort_js_key:
  assumes "\<forall>y \<in> set xs. k y \<noteq> None"
  shows "sort_js (\<lambda>a b. sub_time (k b) (k a)) xs = sort_key (\<lambda>t. - the (k t)) xs"
  using assms by (induction xs) (simp_all add: insort_cmp_key)

lemma slice0_nonneg: "0 \<le> n \<Longrightarrow> slice0 xs n = take (nat n) xs"
  by (auto simp: slice0_def Let_def min_def)

lemma take_of_sorted_desc:
  assumes "sorted_wrt (\<lambda>a b. k b \<le> (k a :: int)) xs"
  shows "sorted_wrt (\<lambda>a b. k b \<le> k a) (take n xs)
         \<and> (\<forall>x \<in> set (take n xs). \<forall>y \<in> set (drop n xs). k y \<le> k x)"
proof -
  have "sorted_wrt (\<lambda>a b. k b \<le> k a) (take n xs @ drop n xs)" using assms by simp
  then show ?thesis unfolding sorted_wrt_append by blast
qed

text \<open>
  C8, as the store has it. Where the creation time of every task of the store parses as a
  date and the limit is not negative, the list \<open>getRecentTasks\<close> returns is ordered by
  creation time, most recent first; it has \<open>limit\<close> tasks, or all of them when there are
  fewer; it is made of tasks of the store, and every task of the store left out is no more
  recent than any task returned; tasks with the same creation time keep the order they
  had in the store. Without an argument the limit is 10.
\<close>

theorem getRecentTasks_most_recent_first:
  assumes parse: "\<forall>t \<in> set (tasks s). getTime (created_at t) \<noteq> None"
    and limit: "0 \<le> limit"
  shows "sorted_wrt (at_least_as_recent getTime) (fst (getRecentTasks getTime (Some limit) s))
   \<and> length (fst (getRecentTasks getTime (Some limit) s)) = min (nat limit) (length (tasks s))
   \<and> mset (fst (getRecentTasks getTime (Some limit) s)) \<subseteq># mset (tasks s)
   \<and> (\<forall>x \<in># mset (fst (getRecentTasks getTime (Some limit) s)).
       \<forall>y \<in># mset (tasks s) - mset (fst (getRecentTasks getTime (Some limit) s)).
         at_least_as_recent getTime x y)
   \<and> (\<forall>c. filter (\<lambda>t. getTime (created_at t) = c) (fst (getRecentTasks getTime (Some limit) s))
          = take (length (filter (\<lambda>t. getTime (created_at t) = c)
                               (fst (getRecentTasks getTime (Some limit) s))))
                 (filter (\<lambda>t. getTime (created_at t) = c) (tasks s)))
   \<and> getRecentTasks getTime None s = getRecentTasks getTime (Some 10) s"
proof -
  define g :: "Task \<Rightarrow> int option" where "g = (\<lambda>t. getTime (created_at t))"
  define k :: "Task \<Rightarrow> int" where "k = (\<lambda>t. the (g t))"
  define ys where "ys = sort_js (\<lambda>a b. sub_time (g b) (g a)) (tasks s)"
  define n where "n = nat limit"
  have valid: "\<forall>t \<in> set (tasks s). g t \<noteq> None"
    using parse by (simp add: g_def)
  have key: "ys = sort_key (\<lambda>t. - k t) (tasks s)"
    unfolding ys_def k_def using valid by (rule sort_js_key)
  have res: "fst (getRecentTasks getTime (Some limit) s) = take n ys"
    using limit by (simp add: getRecentTasks_def Let_def slice0_nonneg ys_def g_def n_def)
  have srt: "sorted_wrt (\<lambda>a b. k b \<le> k a) ys"
  proof -
    have "sorted (map (\<lambda>t. - k t) (sort_key (\<lambda>t. - k t) (tasks s)))" by (rule sorted_sort_key)
    then show ?thesis by (simp add: key sorted_map)
  qed
  have ms: "mset ys = mset (tasks s)"
    by (simp add: key)
  have sets: "set ys = set (tasks s)"
    by (simp add: key)
  have len: "length ys = length (tasks s)"
    by (simp add: key)
  have recent: "at_least_as_recent getTime x y \<longleftrightarrow> k y \<le> k x"
    if "x \<in> set (tasks s)" "y \<in> set (tasks s)" for x y
  proof -
    from that valid obtain a b where "g x = Some a" and "g y = Some b" by blast
    then show ?thesis unfolding at_least_as_recent_def k_def g_def by simp
  qed
  have split: "mset (tasks s) = mset (take n ys) + mset (drop n ys)"
    by (metis ms append_take_drop_id mset_append)
  have in_take: "x \<in> set (tasks s)" if "x \<in> set (take n ys)" for x
    using that sets by (metis in_set_takeD)
  have in_drop: "x \<in> set (tasks s)" if "x \<in> set (drop n ys)" for x
    using that sets by (metis in_set_dropD)
  have 1: "sorted_wrt (at_least_as_recent getTime) (take n ys)"
  proof (rule sorted_wrt_mono_rel [of "take n ys" "\<lambda>a b. k b \<le> k a"])
    show "sorted_wrt (\<lambda>a b. k b \<le> k a) (take n ys)"
      using take_of_sorted_desc [OF srt] by blast
  next
    fix x y
    assume "x \<in> set (take n ys)" "y \<in> set (take n ys)" "k y \<le> k x"
    then show "at_least_as_recent getTime x y"
      using recent in_take by blast
  qed
  have 2: "length (take n ys) = min n (length (tasks s))"
    by (simp add: len)
  have 3: "mset (take n ys) \<subseteq># mset (tasks s)"
    by (simp add: split)
  have 4: "\<forall>x \<in># mset (take n ys). \<forall>y \<in># mset (tasks s) - mset (take n ys).
             at_least_as_recent getTime x y"
  proof (intro ballI)
    fix x y
    assume x: "x \<in># mset (take n ys)" and y: "y \<in># mset (tasks s) - mset (take n ys)"
    from y have y': "y \<in> set (drop n ys)" by (simp add: split)
    from x have x': "x \<in> set (take n ys)" by simp
    from take_of_sorted_desc [OF srt, of n] x' y' have "k y \<le> k x" by blast
    with recent [OF in_take [OF x'] in_drop [OF y']] show "at_least_as_recent getTime x y"
      by blast
  qed
  have 5: "filter (\<lambda>t. g t = c) (take n ys)
           = take (length (filter (\<lambda>t. g t = c) (take n ys))) (filter (\<lambda>t. g t = c) (tasks s))" for c
  proof -
    have "filter (\<lambda>t. g t = c) (tasks s) = filter (\<lambda>t. g t = c) ys"
    proof (cases c)
      case None
      have "filter (\<lambda>t. g t = None) (tasks s) = []" using valid by (simp add: filter_empty_conv)
      moreover have "filter (\<lambda>t. g t = None) ys = []"
        using valid sets by (simp add: filter_empty_conv)
      ultimately show ?thesis using None by simp
    next
      case (Some v)
      have "filter (\<lambda>t. g t = Some v) xs = filter (\<lambda>t. - k t = - v) xs"
        if "set xs \<subseteq> set (tasks s)" for xs
        using that valid by (intro filter_cong) (auto simp: k_def)
      then show ?thesis
        using sort_key_stable [of "\<lambda>t. - k t" "- v" "tasks s"] sets Some by (simp add: key)
    qed
    also have "\<dots> = filter (\<lambda>t. g t = c) (take n ys) @ filter (\<lambda>t. g t = c) (drop n ys)"
      by (metis append_take_drop_id filter_append)
    finally show ?thesis by simp
  qed
  have 6: "getRecentTasks getTime None s = getRecentTasks getTime (Some 10) s"
    by (simp add: getRecentTasks_def)
  show ?thesis
    unfolding res using 1 2 3 4 5 6 by (simp add: g_def n_def)
qed

text \<open>The theorem at the store of three tasks with limit 2, and the default limit.\<close>

theorem getRecentTasks_most_recent_first_witness:
  "map (\<lambda>t. clock (created_at t)) (tasks store3)
     = [Some 1704103200000, Some 1704099600000, Some 1704106800000]
   \<and> (0::int) \<le> 2
   \<and> fst (getRecentTasks clock (Some 2) store3) = [task_queued, task_running]
   \<and> length (fst (getRecentTasks clock (Some 2) store3)) = min (nat 2) (length (tasks store3))
   \<and> fst (getRecentTasks clock None store3) = [task_queued, task_running, task_completed]
   \<and> tasks (snd (getRecentTasks clock None store3)) = [task_queued, task_running, task_completed]"
proof -
  have p: "\<forall>t \<in> set (tasks store3). clock (created_at t) \<noteq> None"
    by (simp add: clock_def store3_def task_running_def task_completed_def task_queued_def)
  have times: "map (\<lambda>t. clock (created_at t)) (tasks store3)
     = [Some 1704103200000, Some 1704099600000, Some 1704106800000]"
    by (simp add: clock_def store3_def task_running_def task_completed_def task_queued_def)
  have h: "(0::int) \<le> 2" by simp
  have len: "length (fst (getRecentTasks clock (Some 2) store3)) = min (nat 2) (length (tasks store3))"
    using getRecentTasks_most_recent_first [OF p h] by blast
  have ev: "fst (getRecentTasks clock (Some 2) store3) = [task_queued, task_running]
     \<and> fst (getRecentTasks clock None store3) = [task_queued, task_running, task_completed]
     \<and> tasks (snd (getRecentTasks clock None store3)) = [task_queued, task_running, task_completed]"
    by (simp add: getRecentTasks_def Let_def slice0_def sub_time_def clock_def store3_def
                  task_running_def task_completed_def task_queued_def)
  show ?thesis using times h len ev by blast
qed

text \<open>
  C8 as stated fails. With a creation time that does not parse between two that do, every
  comparison with it is NaN and the tasks stay as they were, the older of the two dated
  tasks before the newer; and with limit -1 two of three tasks are returned.
\<close>

theorem getRecentTasks_counterexample:
  "fst (getRecentTasks clock None store_bad) = [task_running, task_bad, task_queued]
   \<and> clock (created_at task_running) = Some 1704103200000
   \<and> clock (created_at task_bad) = None
   \<and> clock (created_at task_queued) = Some 1704106800000
   \<and> \<not> at_least_as_recent clock task_running task_queued
   \<and> fst (getRecentTasks clock (Some (- 1)) store3) = [task_queued, task_running]
   \<and> length (tasks store3) = 3"
  by (simp add: getRecentTasks_def Let_def slice0_def sub_time_def clock_def store_bad_def
                store3_def at_least_as_recent_def task_running_def task_completed_def
                task_queued_def task_bad_def)

section \<open>The notification queue is bounded and drops its oldest entry\<close>

lemma notifications_addNotification:
  "notifications (fst (addNotification now n s)) = take 10 (newNotification now n # notifications s)"
  by (simp add: addNotification_def Let_def slice0_nonneg)

lemma length_app_step:
  assumes "length (notifications s) \<le> 10"
  shows "length (notifications (app_step s ev)) \<le> 10"
proof (cases ev)
  case (Enqueue now n)
  then show ?thesis by (simp add: notifications_addNotification)
next
  case (TimerFired ident)
  have "length (filter (\<lambda>n. id_Notification n \<noteq> ident) (notifications s)) \<le> length (notifications s)"
    by (rule length_filter_le)
  with assms have "length (filter (\<lambda>n. id_Notification n \<noteq> ident) (notifications s)) \<le> 10"
    by (rule le_trans [rotated])
  with TimerFired show ?thesis by (simp add: notificationTimeout_def)
next
  case (Removed ident)
  have "length (filter (\<lambda>n. id_Notification n \<noteq> ident) (notifications s)) \<le> length (notifications s)"
    by (rule length_filter_le)
  with assms have "length (filter (\<lambda>n. id_Notification n \<noteq> ident) (notifications s)) \<le> 10"
    by (rule le_trans [rotated])
  with Removed show ?thesis by (simp add: removeNotification_def)
next
  case Cleared
  then show ?thesis by (simp add: clearNotifications_def)
qed

lemma length_run: "length (notifications s) \<le> 10 \<Longrightarrow> length (notifications (foldl app_step s evs)) \<le> 10"
  by (induction evs arbitrary: s) (simp_all add: length_app_step)

lemma take_append_take: "take n (xs @ take n ys) = take n (xs @ ys)"
  by (induction xs arbitrary: n) (auto simp: take_Cons' )

lemma run_enqueues:
  "notifications (foldl app_step s (map (\<lambda>(t, n). Enqueue t n) reqs))
   = take 10 (rev (map (\<lambda>(t, n). newNotification t n) reqs) @ notifications s)"
  if "length (notifications s) \<le> 10"
  using that
proof (induction reqs arbitrary: s)
  case Nil
  then show ?case by simp
next
  case (Cons r reqs)
  obtain t n where r: "r = (t, n)" by (cases r)
  let ?s1 = "fst (addNotification t n s)"
  have len: "length (notifications ?s1) \<le> 10" by (simp add: notifications_addNotification)
  have "notifications (foldl app_step s (map (\<lambda>(t, n). Enqueue t n) (r # reqs)))
        = notifications (foldl app_step ?s1 (map (\<lambda>(t, n). Enqueue t n) reqs))"
    by (simp add: r)
  also have "\<dots> = take 10 (rev (map (\<lambda>(t, n). newNotification t n) reqs) @ notifications ?s1)"
    by (rule Cons.IH [OF len])
  also have "\<dots> = take 10 (rev (map (\<lambda>(t, n). newNotification t n) reqs)
                             @ (newNotification t n # notifications s))"
    by (simp only: notifications_addNotification take_append_take)
  finally show ?case by (simp add: r)
qed

text \<open>
  C4. After \<open>addNotification\<close> the queue holds at most 10 entries, and so it does after
  any sequence of enqueues, timer firings, removals and clearings from the initial state. The queue is kept
  newest first, so its last entry is the oldest: when it holds 10 entries, enqueuing puts
  the new entry in front and drops the last one, keeping the others in order; below 10
  nothing is dropped. After any sequence of enqueues from the initial state the queue is
  the 10 most recent entries, newest first.
\<close>

theorem addNotification_bounded_drops_oldest:
  "length (notifications (fst (addNotification now n s))) \<le> 10
   \<and> length (notifications (foldl app_step initialAppState evs)) \<le> 10
   \<and> (length (notifications s) = 10 \<longrightarrow>
        notifications (fst (addNotification now n s)) = newNotification now n # butlast (notifications s))
   \<and> (length (notifications s) < 10 \<longrightarrow>
        notifications (fst (addNotification now n s)) = newNotification now n # notifications s)
   \<and> notifications (foldl app_step initialAppState (map (\<lambda>(t, n). Enqueue t n) reqs))
       = take 10 (rev (map (\<lambda>(t, n). newNotification t n) reqs))"
proof -
  have 1: "length (notifications (fst (addNotification now n s))) \<le> 10"
    by (simp add: notifications_addNotification)
  have 2: "length (notifications (foldl app_step initialAppState evs)) \<le> 10"
    by (rule length_run) (simp add: initialAppState_def)
  have 3: "notifications (fst (addNotification now n s)) = newNotification now n # butlast (notifications s)"
    if "length (notifications s) = 10"
    using that by (simp add: notifications_addNotification butlast_conv_take)
  have 4: "notifications (fst (addNotification now n s)) = newNotification now n # notifications s"
    if "length (notifications s) < 10"
    using that by (simp add: notifications_addNotification)
  have 5: "notifications (foldl app_step initialAppState (map (\<lambda>(t, n). Enqueue t n) reqs))
       = take 10 (rev (map (\<lambda>(t, n). newNotification t n) reqs))"
    using run_enqueues [of initialAppState reqs] by (simp add: initialAppState_def)
  show ?thesis using 1 2 3 4 5 by blast
qed

text \<open>
  The theorem at a queue filled by ten enqueues at clock readings 1 to 10: the eleventh
  drops the entry of reading 1.
\<close>

theorem addNotification_bounded_drops_oldest_witness:
  "length (notifications full_queue) = 10
   \<and> map id_Notification (notifications full_queue)
       = [''10'', ''9'', ''8'', ''7'', ''6'', ''5'', ''4'', ''3'', ''2'', ''1'']
   \<and> notifications (fst (addNotification 11 note_in full_queue))
       = newNotification 11 note_in # butlast (notifications full_queue)
   \<and> map id_Notification (notifications (fst (addNotification 11 note_in full_queue)))
       = [''11'', ''10'', ''9'', ''8'', ''7'', ''6'', ''5'', ''4'', ''3'', ''2'']
   \<and> length (notifications initialAppState) < 10
   \<and> notifications (fst (addNotification 1 note_in initialAppState)) = [newNotification 1 note_in]"
proof -
  have ids: "map id_Notification (notifications full_queue)
       = [''10'', ''9'', ''8'', ''7'', ''6'', ''5'', ''4'', ''3'', ''2'', ''1'']"
    by code_simp
  have len: "length (notifications full_queue) = 10"
    using arg_cong [OF ids, of length] by simp
  have drop: "notifications (fst (addNotification 11 note_in full_queue))
       = newNotification 11 note_in # butlast (notifications full_queue)"
    using addNotification_bounded_drops_oldest [of 11 note_in full_queue] len by blast
  have id11: "id_Notification (newNotification 11 note_in) = ''11''" by code_simp
  have ids': "map id_Notification (notifications (fst (addNotification 11 note_in full_queue)))
       = [''11'', ''10'', ''9'', ''8'', ''7'', ''6'', ''5'', ''4'', ''3'', ''2'']"
    unfolding drop using ids id11 by (simp add: map_butlast)
  have len0: "length (notifications initialAppState) < 10" by (simp add: initialAppState_def)
  have one: "notifications (fst (addNotification 1 note_in initialAppState)) = [newNotification 1 note_in]"
    using addNotification_bounded_drops_oldest [of 1 note_in initialAppState] len0
    by (simp add: initialAppState_def)
  show ?thesis using len ids drop ids' len0 one by blast
qed

section \<open>Removing a listener\<close>

lemma indexOf_notin: "x \<notin> set xs \<Longrightarrow> indexOf xs x = -1"
  by (induction xs) (auto simp: Let_def)

lemma indexOf_in: "x \<in> set xs \<Longrightarrow> 0 \<le> indexOf xs x \<and> nat (indexOf xs x) < length xs"
  by (induction xs) (auto simp: Let_def)

lemma splice1_indexOf: "x \<in> set xs \<Longrightarrow> splice1 xs (nat (indexOf xs x)) = remove1 x xs"
proof (induction xs)
  case Nil
  then show ?case by simp
next
  case (Cons y ys)
  show ?case
  proof (cases "y = x")
    case True
    then show ?thesis by (simp add: splice1_def)
  next
    case False
    with Cons.prems have in_ys: "x \<in> set ys" by simp
    from indexOf_in [OF in_ys] have nn: "0 \<le> indexOf ys x" by simp
    then have "nat (indexOf ys x + 1) = Suc (nat (indexOf ys x))" by simp
    with False nn Cons.IH [OF in_ys] show ?thesis
      by (simp add: splice1_def Let_def)
  qed
qed

lemma count_list_remove1: "count_list (remove1 x xs) x = count_list xs x - 1"
  by (induction xs) auto

lemma off_Some:
  assumes "listeners s event = Some a"
  shows "off event (Some cb) s = s\<lparr>arrays := (arrays s)(a := remove1 cb (arrays s a))\<rparr>"
proof (cases "cb \<in> set (arrays s a)")
  case True
  from indexOf_in [OF True] have "indexOf (arrays s a) cb > -1" by simp
  with assms True show ?thesis by (simp add: off_def Let_def splice1_indexOf)
next
  case False
  then have "remove1 cb (arrays s a) = arrays s a" by (simp add: remove1_idem)
  with assms False show ?thesis by (simp add: off_def Let_def indexOf_notin)
qed

lemma off_unregistered:
  assumes "case listeners s event of None \<Rightarrow> True | Some a \<Rightarrow> cb \<notin> set (arrays s a)"
  shows "off event (Some cb) s = s"
  using assms by (auto simp: off_def Let_def indexOf_notin split: option.splits)

text \<open>
  C9, as the service has it. \<open>off\<close> with a callback removes the first registration of that
  callback for the event and no other. Removing a callback that is not registered for the
  event, or for an event that has no entry, leaves the service as it is. Where the
  callback is registered at most once for the event, applying \<open>off\<close> twice equals applying
  it once; \<open>off\<close> without a callback, which deletes the entry of the event, is idempotent.
\<close>

theorem off_idempotent_single_registration:
  "((case callbacks_of s event of None \<Rightarrow> True | Some cbs \<Rightarrow> cb \<notin> set cbs) \<longrightarrow>
       off event (Some cb) s = s)
   \<and> (\<forall>a. listeners s event = Some a \<longrightarrow>
        off event (Some cb) s = s\<lparr>arrays := (arrays s)(a := remove1 cb (arrays s a))\<rparr>)
   \<and> (\<forall>cbs. callbacks_of s event = Some cbs \<longrightarrow>
        callbacks_of (off event (Some cb) s) event = Some (remove1 cb cbs)
        \<and> listeners (off event (Some cb) s) = listeners s)
   \<and> ((case callbacks_of s event of None \<Rightarrow> True | Some cbs \<Rightarrow> count_list cbs cb \<le> 1) \<longrightarrow>
        off event (Some cb) (off event (Some cb) s) = off event (Some cb) s)
   \<and> off event None (off event None s) = off event None s"
proof -
  have 1: "off event (Some cb) s = s"
    if "case callbacks_of s event of None \<Rightarrow> True | Some cbs \<Rightarrow> cb \<notin> set cbs"
    using that by (intro off_unregistered) (auto simp: callbacks_of_def split: option.splits)
  have 2: "off event (Some cb) s = s\<lparr>arrays := (arrays s)(a := remove1 cb (arrays s a))\<rparr>"
    if "listeners s event = Some a" for a
    using that by (rule off_Some)
  have keep: "callbacks_of (off event (Some cb) s) event = Some (remove1 cb cbs)
        \<and> listeners (off event (Some cb) s) = listeners s"
    if "callbacks_of s event = Some cbs" for cbs
  proof -
    from that obtain a where a: "listeners s event = Some a" and cbs: "arrays s a = cbs"
      by (auto simp: callbacks_of_def)
    show ?thesis unfolding off_Some [OF a] using a cbs by (simp add: callbacks_of_def)
  qed
  have 3: "off event (Some cb) (off event (Some cb) s) = off event (Some cb) s"
    if h: "case callbacks_of s event of None \<Rightarrow> True | Some cbs \<Rightarrow> count_list cbs cb \<le> 1"
  proof (cases "listeners s event")
    case None
    then show ?thesis by (simp add: off_def)
  next
    case (Some a)
    with h have c: "count_list (arrays s a) cb \<le> 1" by (simp add: callbacks_of_def)
    have "count_list (remove1 cb (arrays s a)) cb = count_list (arrays s a) cb - 1"
      by (rule count_list_remove1)
    with c have "count_list (remove1 cb (arrays s a)) cb = 0"
      by arith
    then have "cb \<notin> set (remove1 cb (arrays s a))"
      by (rule count_list_0_iff [THEN iffD1])
    then show ?thesis
      unfolding off_Some [OF Some] using Some by (intro off_unregistered) simp
  qed
  have 4: "off event None (off event None s) = off event None s"
    by (simp add: off_def split: option.splits)
  show ?thesis using 1 2 keep 3 4 by blast
qed

text \<open>The theorem at a registry with the callbacks 1 and 2 registered once for an event.\<close>

theorem off_idempotent_single_registration_witness:
  "callbacks_of service_two ''task_update'' = Some [1, 2]
   \<and> off ''task_update'' (Some 3) service_two = service_two
   \<and> callbacks_of service_two ''connection_status'' = None
   \<and> off ''connection_status'' (Some 1) service_two = service_two
   \<and> callbacks_of (off ''task_update'' (Some 1) service_two) ''task_update'' = Some [2]
   \<and> count_list [1, 2] (1::nat) = 1
   \<and> off ''task_update'' (Some 1) (off ''task_update'' (Some 1) service_two)
       = off ''task_update'' (Some 1) service_two"
proof -
  have l: "callbacks_of service_two ''task_update'' = Some [1, 2]"
    and l': "callbacks_of service_two ''connection_status'' = None"
    by (simp_all add: service_two_def service_empty_def on_def callbacks_of_def)
  note t = off_idempotent_single_registration [where s = service_two and event = "''task_update''"]
  have a: "off ''task_update'' (Some 3) service_two = service_two"
    using t [where cb = 3] l by simp
  have b: "off ''connection_status'' (Some 1) service_two = service_two"
    using off_idempotent_single_registration
            [where s = service_two and event = "''connection_status''" and cb = 1] l'
    by simp
  have c: "callbacks_of (off ''task_update'' (Some 1) service_two) ''task_update'' = Some [2]"
    using t [where cb = 1] l by simp
  have d: "off ''task_update'' (Some 1) (off ''task_update'' (Some 1) service_two)
       = off ''task_update'' (Some 1) service_two"
    using t [where cb = 1] l by simp
  show ?thesis using l l' a b c d by simp
qed

text \<open>
  C9 as stated fails: \<open>on\<close> pushes without looking for a duplicate, and with callback 1
  registered twice for an event, one \<open>off\<close> leaves one registration and a second \<open>off\<close>
  removes it, so applying \<open>off\<close> twice differs from applying it once.
\<close>

theorem off_twice_counterexample:
  "callbacks_of service_twice ''task_update'' = Some [1, 1]
   \<and> callbacks_of (off ''task_update'' (Some 1) service_twice) ''task_update'' = Some [1]
   \<and> callbacks_of (off ''task_update'' (Some 1) (off ''task_update'' (Some 1) service_twice))
         ''task_update'' = Some []
   \<and> off ''task_update'' (Some 1) (off ''task_update'' (Some 1) service_twice)
       \<noteq> off ''task_update'' (Some 1) service_twice"
proof -
  have l: "listeners service_twice ''task_update'' = Some 0"
    and ar: "arrays service_twice 0 = [1, 1]"
    by (simp_all add: service_twice_def service_empty_def on_def)
  have c0: "callbacks_of service_twice ''task_update'' = Some [1, 1]"
    using l ar by (simp add: callbacks_of_def)
  have once: "callbacks_of (off ''task_update'' (Some 1) service_twice) ''task_update'' = Some [1]"
    using l ar by (simp add: off_Some [OF l] callbacks_of_def)
  have l1: "listeners (off ''task_update'' (Some 1) service_twice) ''task_update'' = Some 0"
    using l by (simp add: off_Some [OF l])
  have ar1: "arrays (off ''task_update'' (Some 1) service_twice) 0 = [1]"
    using ar by (simp add: off_Some [OF l])
  have twice: "callbacks_of (off ''task_update'' (Some 1) (off ''task_update'' (Some 1) service_twice))
         ''task_update'' = Some []"
    unfolding off_Some [OF l1] callbacks_of_def using l1 ar1 by simp
  from once twice
  have "off ''task_update'' (Some 1) (off ''task_update'' (Some 1) service_twice)
       \<noteq> off ''task_update'' (Some 1) service_twice"
    by (metis list.distinct(1) option.inject)
  with c0 once twice show ?thesis by blast
qed

section \<open>Dispatch reaches every listener that is not removed meanwhile\<close>





section \<open>A subscriber's stream: one snapshot, live events, one terminal event\<close>


lemma subscribeToTask_disconnected:
  "\<not> isConnected client \<Longrightarrow> handle_message sub (subscribeToTask taskId client) h = h"
  by (auto simp: subscribeToTask_def send_def isConnected_def handle_message_def
           split: option.splits)

























end
